theory Spec2Isabelle
  imports Main "HOL-Library.Word"
begin

section \<open>The reader side of side RCU (\<^verbatim>\<open>src/rcu.h\<close>)\<close>

text \<open>
  The header defines the grace-period state, the two inline reader operations
  \<^verbatim>\<open>side_rcu_read_begin\<close> and \<^verbatim>\<open>side_rcu_read_end\<close>, the wake-up helper and the two
  pointer macros. One call of a reader operation is modelled as a function from the memory
  before the call to the memory after it, together with the value returned and the list of
  atomic operations, barriers and external calls the call performs, in program order.
  What other threads do between two of these operations is not part of the model.
  The header only declares \<^verbatim>\<open>side_rcu_wait_grace_period\<close>, \<^verbatim>\<open>side_rcu_gp_init\<close> and
  \<^verbatim>\<open>side_rcu_gp_exit\<close>; their bodies are not part of it.
\<close>

subsection \<open>C types\<close>

text \<open>\<^verbatim>\<open>uintptr_t\<close> is 64 bits wide and \<^verbatim>\<open>int\<close> 32 (the LP64 targets of librseq). A signed
  value is a word read with \<open>sint\<close>, an unsigned one a word read with \<open>unat\<close> or \<open>uint\<close>.\<close>

type_synonym uintptr_t = "64 word"
type_synonym c_int = "32 word"
type_synonym c_uint = "32 word"
type_synonym int32_t = "32 word"
type_synonym uint32_t = "32 word"

text \<open>\<^verbatim>\<open>struct side_rcu_percpu_count\<close>; the fields \<^verbatim>\<open>begin\<close> and \<^verbatim>\<open>end\<close> are
  named \<open>begin_ctr\<close> and \<open>end_ctr\<close>, the C names being reserved words here.\<close>

record side_rcu_percpu_count =
  begin_ctr :: uintptr_t
  rseq_begin :: uintptr_t
  end_ctr :: uintptr_t
  rseq_end :: uintptr_t

text \<open>\<^verbatim>\<open>struct side_rcu_cpu_gp_state\<close>: the array \<^verbatim>\<open>count[2]\<close> is a pair, entry 0 first.\<close>

record side_rcu_cpu_gp_state =
  count :: "side_rcu_percpu_count \<times> side_rcu_percpu_count"

type_synonym addr = nat

datatype pthread_mutex_t = Mutex_unlocked | Mutex_locked

text \<open>\<^verbatim>\<open>struct side_rcu_gp_state\<close>: \<open>percpu_state\<close> is the pointer held in the field.\<close>

record side_rcu_gp_state =
  percpu_state :: addr
  nr_cpus :: c_int
  futex :: int32_t
  period :: c_uint
  gp_lock :: pthread_mutex_t

text \<open>The memory a call works on: the structure \<^verbatim>\<open>*gp_state\<close> and the arrays of per-CPU
  states that exist, by base address.\<close>

record memory =
  gp_state :: side_rcu_gp_state
  cpu_arrays :: "addr \<rightharpoonup> side_rcu_cpu_gp_state list"

text \<open>What the surroundings answer during one call: the value of the flag
  \<^verbatim>\<open>side_rcu_rseq_membarrier_available\<close> (declared \<^verbatim>\<open>extern\<close>, defined elsewhere), and the
  results of \<^verbatim>\<open>rseq_cpu_start()\<close>, \<^verbatim>\<open>rseq_addv()\<close> (both of librseq, which declares the first
  as returning \<^verbatim>\<open>uint32_t\<close> and the second as returning 0 when the addition was committed)
  and \<^verbatim>\<open>sched_getcpu()\<close>.\<close>

record env =
  side_rcu_rseq_membarrier_available :: c_uint
  rseq_cpu_start :: uint32_t
  rseq_addv_ret :: c_int
  sched_getcpu :: c_int

subsection \<open>Operations performed, in program order\<close>

datatype memorder =
  ATOMIC_RELAXED | ATOMIC_CONSUME | ATOMIC_ACQUIRE | ATOMIC_RELEASE | ATOMIC_ACQ_REL | ATOMIC_SEQ_CST

datatype counter = F_begin | F_rseq_begin | F_end | F_rseq_end

text \<open>The objects the header accesses: the fields \<^verbatim>\<open>period\<close> and \<^verbatim>\<open>futex\<close>, the counter
  \<^verbatim>\<open>percpu_state[cpu].count[period].field\<close>, and the pointer given to the two macros.\<close>

datatype location = Loc_period | Loc_futex | Loc_count nat nat counter | Loc_pointer

datatype event =
    Atomic_load_n location memorder
  | Atomic_store_n location memorder
  | Atomic_add_fetch location uintptr_t memorder
  | Atomic_thread_fence memorder
  | Rseq_cpu_start
  | Rseq_addv location uintptr_t int c_int
  | Rseq_barrier
  | Sched_getcpu
  | Futex_wake int32_t

text \<open>An access outside an array, or through a pointer to no array, is undefined behaviour
  in C. The model stops there with a fault.\<close>

datatype fault = Out_of_bounds | Invalid_pointer

subsection \<open>Addressing and updating the counters\<close>

text \<open>\<^verbatim>\<open>&gp_state->percpu_state[cpu]\<close>\<close>

definition percpu_state_index :: "memory \<Rightarrow> int \<Rightarrow> fault + nat" where
  "percpu_state_index m cpu =
     (case cpu_arrays m (percpu_state (gp_state m)) of
        None \<Rightarrow> Inl Invalid_pointer
      | Some arr \<Rightarrow> if 0 \<le> cpu \<and> cpu < int (length arr) then Inr (nat cpu) else Inl Out_of_bounds)"

text \<open>\<^verbatim>\<open>&cpu_gp_state->count[period]\<close>\<close>

definition count_index :: "c_uint \<Rightarrow> fault + nat" where
  "count_index p = (if unat p < 2 then Inr (unat p) else Inl Out_of_bounds)"

text \<open>\<^verbatim>\<open>&gp_state->percpu_state[cpu].count[period].field\<close>\<close>

definition counter_ptr :: "memory \<Rightarrow> int \<Rightarrow> c_uint \<Rightarrow> counter \<Rightarrow> fault + location" where
  "counter_ptr m cpu p f =
     (case percpu_state_index m cpu of
        Inl x \<Rightarrow> Inl x
      | Inr i \<Rightarrow> (case count_index p of Inl x \<Rightarrow> Inl x | Inr j \<Rightarrow> Inr (Loc_count i j f)))"

fun get_field :: "counter \<Rightarrow> side_rcu_percpu_count \<Rightarrow> uintptr_t" where
  "get_field F_begin c = begin_ctr c"
| "get_field F_rseq_begin c = rseq_begin c"
| "get_field F_end c = end_ctr c"
| "get_field F_rseq_end c = rseq_end c"

fun set_field :: "counter \<Rightarrow> uintptr_t \<Rightarrow> side_rcu_percpu_count \<Rightarrow> side_rcu_percpu_count" where
  "set_field F_begin v c = c\<lparr>begin_ctr := v\<rparr>"
| "set_field F_rseq_begin v c = c\<lparr>rseq_begin := v\<rparr>"
| "set_field F_end v c = c\<lparr>end_ctr := v\<rparr>"
| "set_field F_rseq_end v c = c\<lparr>rseq_end := v\<rparr>"

definition get_count :: "nat \<Rightarrow> side_rcu_cpu_gp_state \<Rightarrow> side_rcu_percpu_count" where
  "get_count j s = (if j = 0 then fst (count s) else snd (count s))"

definition set_count :: "nat \<Rightarrow> side_rcu_percpu_count \<Rightarrow> side_rcu_cpu_gp_state \<Rightarrow> side_rcu_cpu_gp_state" where
  "set_count j c s =
     (if j = 0 then s\<lparr>count := (c, snd (count s))\<rparr> else s\<lparr>count := (fst (count s), c)\<rparr>)"

text \<open>The value of the counter \<open>field\<close> of period \<open>j\<close> of CPU \<open>i\<close>, when there is one.\<close>

definition counter_value :: "memory \<Rightarrow> nat \<Rightarrow> nat \<Rightarrow> counter \<Rightarrow> uintptr_t option" where
  "counter_value m i j f =
     (case cpu_arrays m (percpu_state (gp_state m)) of
        None \<Rightarrow> None
      | Some arr \<Rightarrow> if i < length arr \<and> j < 2 then Some (get_field f (get_count j (arr ! i))) else None)"

text \<open>The addition \<^verbatim>\<open>*v += n\<close> on a counter, in \<^verbatim>\<open>uintptr_t\<close> arithmetic. The location comes
  from \<open>counter_ptr\<close>; any other memory is left as it is.\<close>

fun add_at :: "location \<Rightarrow> uintptr_t \<Rightarrow> memory \<Rightarrow> memory" where
  "add_at (Loc_count i j f) n m =
     (case cpu_arrays m (percpu_state (gp_state m)) of
        None \<Rightarrow> m
      | Some arr \<Rightarrow>
          (let s = arr ! i; c = get_count j s
           in m\<lparr>cpu_arrays := (cpu_arrays m)
                  (percpu_state (gp_state m) \<mapsto> arr[i := set_count j (set_field f (get_field f c + n) c) s])\<rparr>))"
| "add_at l n m = m"

subsection \<open>The functions of the header\<close>

text \<open>\<^verbatim>\<open>side_rcu_wake_up_gp\<close> (lines 55 to 63): the wake is
  \<^verbatim>\<open>futex(&gp_state->futex, FUTEX_WAKE, 1, NULL, NULL, 0)\<close>, its result dropped.\<close>

definition side_rcu_wake_up_gp :: "memory \<Rightarrow> memory \<times> event list" where
  "side_rcu_wake_up_gp m =
     (if futex (gp_state m) = - 1
      then (m\<lparr>gp_state := (gp_state m)\<lparr>futex := 0\<rparr>\<rparr>,
            [Atomic_load_n Loc_futex ATOMIC_RELAXED, Atomic_store_n Loc_futex ATOMIC_RELAXED, Futex_wake 1])
      else (m, [Atomic_load_n Loc_futex ATOMIC_RELAXED]))"

text \<open>Lines 93 to 99 of \<^verbatim>\<open>side_rcu_read_begin\<close>: the fallback, reached when the flag is 0
  or \<^verbatim>\<open>rseq_addv\<close> did not return 0. \<open>tr\<close> is what the call did before.\<close>

definition read_begin_fallback ::
  "env \<Rightarrow> memory \<Rightarrow> c_uint \<Rightarrow> event list \<Rightarrow> fault + (c_uint \<times> memory \<times> event list)" where
  "read_begin_fallback e m p tr =
     (let cpu0 = sint (sched_getcpu e);
          cpu = (if cpu0 < 0 then 0 else cpu0)
      in case counter_ptr m cpu p F_begin of
           Inl x \<Rightarrow> Inl x
         | Inr l \<Rightarrow>
             Inr (p, add_at l 1 m, tr @ [Sched_getcpu, Atomic_add_fetch l 1 ATOMIC_SEQ_CST]))"

text \<open>\<^verbatim>\<open>side_rcu_read_begin\<close> (lines 66 to 100). The result is the value returned, the memory
  after the call and the operations performed. On the fast path the address of the counter
  is formed (lines 74 and 75) before \<^verbatim>\<open>rseq_addv\<close> runs, so it has to be in bounds also
  when \<^verbatim>\<open>rseq_addv\<close> aborts; an aborted \<^verbatim>\<open>rseq_addv\<close> leaves the counter as it is.\<close>

definition side_rcu_read_begin :: "env \<Rightarrow> memory \<Rightarrow> fault + (c_uint \<times> memory \<times> event list)" where
  "side_rcu_read_begin e m =
     (let p = period (gp_state m);
          tr = [Atomic_load_n Loc_period ATOMIC_RELAXED]
      in if side_rcu_rseq_membarrier_available e \<noteq> 0 then
           (let cpu = sint (rseq_cpu_start e)
            in case counter_ptr m cpu p F_rseq_begin of
                 Inl x \<Rightarrow> Inl x
               | Inr l \<Rightarrow>
                   if rseq_addv_ret e = 0
                   then Inr (p, add_at l 1 m, tr @ [Rseq_cpu_start, Rseq_addv l 1 cpu 0, Rseq_barrier])
                   else read_begin_fallback e m p (tr @ [Rseq_cpu_start, Rseq_addv l 1 cpu (rseq_addv_ret e)]))
         else read_begin_fallback e m p tr)"

text \<open>Lines 135 to 148 of \<^verbatim>\<open>side_rcu_read_end\<close>: the fallback, then the label \<^verbatim>\<open>end\<close>.\<close>

definition read_end_fallback ::
  "env \<Rightarrow> memory \<Rightarrow> c_uint \<Rightarrow> event list \<Rightarrow> fault + (memory \<times> event list)" where
  "read_end_fallback e m p tr =
     (let cpu0 = sint (sched_getcpu e);
          cpu = (if cpu0 < 0 then 0 else cpu0)
      in case counter_ptr m cpu p F_end of
           Inl x \<Rightarrow> Inl x
         | Inr l \<Rightarrow>
             (let (m', w) = side_rcu_wake_up_gp (add_at l 1 m)
              in Inr (m', tr @ [Sched_getcpu, Atomic_add_fetch l 1 ATOMIC_SEQ_CST,
                                Atomic_thread_fence ATOMIC_SEQ_CST] @ w)))"

text \<open>\<^verbatim>\<open>side_rcu_read_end\<close> (lines 103 to 149); \<open>p\<close> is the parameter \<^verbatim>\<open>period\<close>.\<close>

definition side_rcu_read_end :: "env \<Rightarrow> memory \<Rightarrow> c_uint \<Rightarrow> fault + (memory \<times> event list)" where
  "side_rcu_read_end e m p =
     (if side_rcu_rseq_membarrier_available e \<noteq> 0 then
        (let cpu = sint (rseq_cpu_start e)
         in case counter_ptr m cpu p F_rseq_end of
              Inl x \<Rightarrow> Inl x
            | Inr l \<Rightarrow>
                if rseq_addv_ret e = 0
                then (let (m', w) = side_rcu_wake_up_gp (add_at l 1 m)
                      in Inr (m', [Rseq_barrier, Rseq_cpu_start, Rseq_addv l 1 cpu 0, Rseq_barrier] @ w))
                else read_end_fallback e m p
                       [Rseq_barrier, Rseq_cpu_start, Rseq_addv l 1 cpu (rseq_addv_ret e)])
      else read_end_fallback e m p [])"

text \<open>The macros \<^verbatim>\<open>side_rcu_dereference(p)\<close> and \<^verbatim>\<open>side_rcu_assign_pointer(p, v)\<close>
  (lines 151 to 158), on the content of the pointer variable \<^verbatim>\<open>p\<close>: the value of the
  expression, respectively the new content, and the one atomic operation performed.\<close>

definition side_rcu_dereference :: "'a \<Rightarrow> 'a \<times> event list" where
  "side_rcu_dereference p = (p, [Atomic_load_n Loc_pointer ATOMIC_CONSUME])"

definition side_rcu_assign_pointer :: "'a \<Rightarrow> 'a \<Rightarrow> 'a \<times> event list" where
  "side_rcu_assign_pointer p v = (v, [Atomic_store_n Loc_pointer ATOMIC_RELEASE])"

subsection \<open>Reading the list of operations\<close>

text \<open>The object an operation works on, when it names one. The wake is a system call on
  the address of the \<^verbatim>\<open>futex\<close> field.\<close>

fun event_loc :: "event \<Rightarrow> location option" where
  "event_loc (Atomic_load_n l mo) = Some l"
| "event_loc (Atomic_store_n l mo) = Some l"
| "event_loc (Atomic_add_fetch l n mo) = Some l"
| "event_loc (Rseq_addv l n cpu r) = Some l"
| "event_loc (Futex_wake n) = Some Loc_futex"
| "event_loc ev = None"

text \<open>An addition of 1 to an end counter of period \<open>j\<close>: a committed \<^verbatim>\<open>rseq_addv\<close> on
  \<^verbatim>\<open>rseq_end\<close> or a sequentially consistent \<^verbatim>\<open>__atomic_add_fetch\<close> on \<^verbatim>\<open>end\<close>.\<close>

fun end_increment :: "nat \<Rightarrow> event \<Rightarrow> bool" where
  "end_increment j (Rseq_addv (Loc_count i j' f) n cpu r) = (j' = j \<and> f = F_rseq_end \<and> n = 1 \<and> r = 0)"
| "end_increment j (Atomic_add_fetch (Loc_count i j' f) n mo) =
     (j' = j \<and> f = F_end \<and> n = 1 \<and> mo = ATOMIC_SEQ_CST)"
| "end_increment j ev = False"

subsection \<open>Well-formed states\<close>

text \<open>The array \<open>percpu_state\<close> points to has \<open>nr_cpus\<close> entries.\<close>

definition percpu_array_ok :: "memory \<Rightarrow> bool" where
  "percpu_array_ok m =
     (case cpu_arrays m (percpu_state (gp_state m)) of
        None \<Rightarrow> False
      | Some arr \<Rightarrow> int (length arr) = sint (nr_cpus (gp_state m)))"

text \<open>Every CPU id a call obtains is less than \<open>nr_cpus\<close>: the one of \<^verbatim>\<open>rseq_cpu_start\<close>,
  an unsigned value, obtained when the flag is set, and the one of \<^verbatim>\<open>sched_getcpu\<close>, a negative
  value replaced by 0, obtained when the fallback runs.\<close>

definition cpu_ids_ok :: "env \<Rightarrow> memory \<Rightarrow> bool" where
  "cpu_ids_ok e m =
     ((side_rcu_rseq_membarrier_available e \<noteq> 0 \<longrightarrow>
         uint (rseq_cpu_start e) < sint (nr_cpus (gp_state m))) \<and>
      (side_rcu_rseq_membarrier_available e = 0 \<or> rseq_addv_ret e \<noteq> 0 \<longrightarrow>
         (if sint (sched_getcpu e) < 0 then 0 else sint (sched_getcpu e)) < sint (nr_cpus (gp_state m))))"

subsection \<open>Two CPUs, for the examples\<close>

definition zero_count :: side_rcu_percpu_count where
  "zero_count = \<lparr>begin_ctr = 0, rseq_begin = 0, end_ctr = 0, rseq_end = 0\<rparr>"

definition idle_cpu :: side_rcu_cpu_gp_state where
  "idle_cpu = \<lparr>count = (zero_count, zero_count)\<rparr>"

text \<open>Two CPUs with all counters at 0, the period being 1, the futex idle and the array of
  per-CPU states at address 4096.\<close>

definition two_cpus :: memory where
  "two_cpus =
     \<lparr>gp_state = \<lparr>percpu_state = 4096, nr_cpus = 2, futex = 0, period = 1, gp_lock = Mutex_unlocked\<rparr>,
      cpu_arrays = [4096 \<mapsto> [idle_cpu, idle_cpu]]\<rparr>"

text \<open>The same with the grace-period thread asleep on the futex.\<close>

definition two_cpus_sleeping :: memory where
  "two_cpus_sleeping = two_cpus\<lparr>gp_state := (gp_state two_cpus)\<lparr>futex := - 1\<rparr>\<rparr>"

text \<open>The fast path on CPU 1; an aborted \<^verbatim>\<open>rseq_addv\<close> followed by a failing
  \<^verbatim>\<open>sched_getcpu\<close>.\<close>

definition fast_env :: env where
  "fast_env = \<lparr>side_rcu_rseq_membarrier_available = 1, rseq_cpu_start = 1, rseq_addv_ret = 0,
                sched_getcpu = 1\<rparr>"

definition abort_env :: env where
  "abort_env = \<lparr>side_rcu_rseq_membarrier_available = 1, rseq_cpu_start = 1, rseq_addv_ret = - 1,
                 sched_getcpu = - 1\<rparr>"

text \<open>After \<open>side_rcu_read_begin\<close> on the fast path on CPU 1.\<close>

definition fast_begun :: memory where
  "fast_begun = two_cpus\<lparr>cpu_arrays :=
     [4096 \<mapsto> [idle_cpu, \<lparr>count = (zero_count, zero_count\<lparr>rseq_begin := 1\<rparr>)\<rparr>]]\<rparr>"

definition fast_begin_ops :: "event list" where
  "fast_begin_ops =
     [Atomic_load_n Loc_period ATOMIC_RELAXED, Rseq_cpu_start,
      Rseq_addv (Loc_count 1 1 F_rseq_begin) 1 1 0, Rseq_barrier]"

text \<open>After \<open>side_rcu_read_begin\<close> when \<^verbatim>\<open>rseq_addv\<close> aborts and \<^verbatim>\<open>sched_getcpu\<close> fails.\<close>

definition fallback_begun :: memory where
  "fallback_begun = two_cpus\<lparr>cpu_arrays :=
     [4096 \<mapsto> [\<lparr>count = (zero_count, zero_count\<lparr>begin_ctr := 1\<rparr>)\<rparr>, idle_cpu]]\<rparr>"

definition abort_begin_ops :: "event list" where
  "abort_begin_ops =
     [Atomic_load_n Loc_period ATOMIC_RELAXED, Rseq_cpu_start,
      Rseq_addv (Loc_count 1 1 F_rseq_begin) 1 1 (- 1),
      Sched_getcpu, Atomic_add_fetch (Loc_count 0 1 F_begin) 1 ATOMIC_SEQ_CST]"

text \<open>A reader that began on CPU 1 and ends, with ticket 1, on CPU 0 through the fallback.\<close>

definition migrated_ended :: memory where
  "migrated_ended = two_cpus\<lparr>cpu_arrays :=
     [4096 \<mapsto> [\<lparr>count = (zero_count, zero_count\<lparr>end_ctr := 1\<rparr>)\<rparr>,
                \<lparr>count = (zero_count, zero_count\<lparr>rseq_begin := 1\<rparr>)\<rparr>]]\<rparr>"

definition abort_end_ops :: "event list" where
  "abort_end_ops =
     [Rseq_barrier, Rseq_cpu_start, Rseq_addv (Loc_count 1 1 F_rseq_end) 1 1 (- 1),
      Sched_getcpu, Atomic_add_fetch (Loc_count 0 1 F_end) 1 ATOMIC_SEQ_CST,
      Atomic_thread_fence ATOMIC_SEQ_CST, Atomic_load_n Loc_futex ATOMIC_RELAXED]"

text \<open>\<open>side_rcu_read_end\<close> on the fast path on CPU 1 while the grace-period thread sleeps.\<close>

definition woken :: memory where
  "woken = two_cpus\<lparr>cpu_arrays :=
     [4096 \<mapsto> [idle_cpu, \<lparr>count = (zero_count, zero_count\<lparr>rseq_end := 1\<rparr>)\<rparr>]]\<rparr>"

definition fast_end_wake_ops :: "event list" where
  "fast_end_wake_ops =
     [Rseq_barrier, Rseq_cpu_start, Rseq_addv (Loc_count 1 1 F_rseq_end) 1 1 0, Rseq_barrier,
      Atomic_load_n Loc_futex ATOMIC_RELAXED, Atomic_store_n Loc_futex ATOMIC_RELAXED, Futex_wake 1]"

text \<open>The \<^verbatim>\<open>begin\<close> counter of period 1 of CPU 0 holds \<^verbatim>\<open>UINTPTR_MAX\<close>.\<close>

definition saturated_cpus :: memory where
  "saturated_cpus = two_cpus\<lparr>cpu_arrays :=
     [4096 \<mapsto> [\<lparr>count = (zero_count, zero_count\<lparr>begin_ctr := - 1\<rparr>)\<rparr>, idle_cpu]]\<rparr>"

text \<open>A structure on which \<^verbatim>\<open>side_rcu_gp_init\<close> has not run: \<^verbatim>\<open>percpu_state\<close> is the null
  pointer and there is no array of per-CPU states.\<close>

definition uninitialised :: memory where
  "uninitialised =
     \<lparr>gp_state = \<lparr>percpu_state = 0, nr_cpus = 0, futex = 0, period = 0, gp_lock = Mutex_unlocked\<rparr>,
      cpu_arrays = Map.empty\<rparr>"

section \<open>Properties\<close>

subsection \<open>Addresses and additions\<close>

lemma counter_ptr_Inr:
  "counter_ptr m cpu p f = Inr l \<longleftrightarrow>
     (\<exists>arr. cpu_arrays m (percpu_state (gp_state m)) = Some arr \<and> 0 \<le> cpu \<and> cpu < int (length arr)
        \<and> unat p < 2 \<and> l = Loc_count (nat cpu) (unat p) f)"
  by (auto simp: counter_ptr_def percpu_state_index_def count_index_def
      split: option.splits sum.splits if_splits)

lemma gp_state_add_at: "gp_state (add_at l n m) = gp_state m"
  by (cases l) (simp_all add: Let_def split: option.splits)

lemma cpu_arrays_add_at_other:
  "a \<noteq> percpu_state (gp_state m) \<Longrightarrow> cpu_arrays (add_at l n m) a = cpu_arrays m a"
  by (cases l) (simp_all add: Let_def split: option.splits)

lemma get_field_set_field: "get_field f' (set_field f v c) = (if f' = f then v else get_field f' c)"
  by (cases f; cases f') simp_all

lemma get_count_set_count:
  "j < 2 \<Longrightarrow> j' < 2 \<Longrightarrow> get_count j' (set_count j c s) = (if j' = j then c else get_count j' s)"
  by (auto simp: get_count_def set_count_def)

lemma counter_value_add_at:
  assumes "cpu_arrays m (percpu_state (gp_state m)) = Some arr" "i < length arr" "j < 2"
  shows "counter_value (add_at (Loc_count i j f) n m) i' j' f' =
           (if i' = i \<and> j' = j \<and> f' = f
            then Some (get_field f (get_count j (arr ! i)) + n)
            else counter_value m i' j' f')"
  using assms
  by (auto simp: counter_value_def Let_def get_field_set_field get_count_set_count nth_list_update)

text \<open>A counter reached through \<open>counter_ptr\<close> has a value, and the addition changes that
  counter and no other.\<close>

lemma counter_ptr_add_at:
  assumes "counter_ptr m cpu p f = Inr l"
  shows "\<exists>v. l = Loc_count (nat cpu) (unat p) f \<and> 0 \<le> cpu \<and> unat p < 2
           \<and> counter_value m (nat cpu) (unat p) f = Some v
           \<and> (\<forall>i' j' f'. counter_value (add_at l n m) i' j' f' =
                 (if i' = nat cpu \<and> j' = unat p \<and> f' = f then Some (v + n) else counter_value m i' j' f'))"
proof -
  from assms obtain arr where arr: "cpu_arrays m (percpu_state (gp_state m)) = Some arr"
    and b: "0 \<le> cpu" "cpu < int (length arr)" "unat p < 2" and l: "l = Loc_count (nat cpu) (unat p) f"
    by (auto simp: counter_ptr_Inr)
  from b have i: "nat cpu < length arr" by simp
  have v: "counter_value m (nat cpu) (unat p) f = Some (get_field f (get_count (unat p) (arr ! nat cpu)))"
    using arr i b by (simp add: counter_value_def)
  show ?thesis
    using l b v counter_value_add_at [OF arr i b(3)] by simp
qed

subsection \<open>The paths through the two reader operations\<close>

lemma read_begin_fallback_Inr:
  "read_begin_fallback e m p tr = Inr (t, m', tr') \<longleftrightarrow>
     (\<exists>l. counter_ptr m (if sint (sched_getcpu e) < 0 then 0 else sint (sched_getcpu e)) p F_begin = Inr l
        \<and> t = p \<and> m' = add_at l 1 m \<and> tr' = tr @ [Sched_getcpu, Atomic_add_fetch l 1 ATOMIC_SEQ_CST])"
  by (auto simp: read_begin_fallback_def Let_def split: sum.splits)

lemma read_begin_Inr:
  "side_rcu_read_begin e m = Inr (t, m', tr) \<longleftrightarrow>
     t = period (gp_state m) \<and>
     (if side_rcu_rseq_membarrier_available e \<noteq> 0
      then \<exists>l. counter_ptr m (sint (rseq_cpu_start e)) t F_rseq_begin = Inr l \<and>
             (if rseq_addv_ret e = 0
              then m' = add_at l 1 m \<and>
                   tr = [Atomic_load_n Loc_period ATOMIC_RELAXED, Rseq_cpu_start,
                         Rseq_addv l 1 (sint (rseq_cpu_start e)) 0, Rseq_barrier]
              else \<exists>l'. counter_ptr m (if sint (sched_getcpu e) < 0 then 0 else sint (sched_getcpu e)) t F_begin = Inr l'
                     \<and> m' = add_at l' 1 m
                     \<and> tr = [Atomic_load_n Loc_period ATOMIC_RELAXED, Rseq_cpu_start,
                             Rseq_addv l 1 (sint (rseq_cpu_start e)) (rseq_addv_ret e),
                             Sched_getcpu, Atomic_add_fetch l' 1 ATOMIC_SEQ_CST])
      else \<exists>l'. counter_ptr m (if sint (sched_getcpu e) < 0 then 0 else sint (sched_getcpu e)) t F_begin = Inr l'
             \<and> m' = add_at l' 1 m
             \<and> tr = [Atomic_load_n Loc_period ATOMIC_RELAXED, Sched_getcpu, Atomic_add_fetch l' 1 ATOMIC_SEQ_CST])"
  by (auto simp: side_rcu_read_begin_def Let_def read_begin_fallback_Inr split: sum.splits)

lemma wake_up_gp_fst:
  "fst (side_rcu_wake_up_gp m) =
     m\<lparr>gp_state := (gp_state m)\<lparr>futex := (if futex (gp_state m) = - 1 then 0 else futex (gp_state m))\<rparr>\<rparr>"
  by (simp add: side_rcu_wake_up_gp_def)

lemma wake_up_gp_snd:
  "snd (side_rcu_wake_up_gp m) =
     Atomic_load_n Loc_futex ATOMIC_RELAXED #
       (if futex (gp_state m) = - 1 then [Atomic_store_n Loc_futex ATOMIC_RELAXED, Futex_wake 1] else [])"
  by (simp add: side_rcu_wake_up_gp_def)

lemma wake_up_gp_counter: "counter_value (fst (side_rcu_wake_up_gp m)) i j f = counter_value m i j f"
  by (simp add: side_rcu_wake_up_gp_def counter_value_def)

lemma read_end_fallback_Inr:
  "read_end_fallback e m p tr = Inr (m', tr') \<longleftrightarrow>
     (\<exists>l. counter_ptr m (if sint (sched_getcpu e) < 0 then 0 else sint (sched_getcpu e)) p F_end = Inr l
        \<and> m' = fst (side_rcu_wake_up_gp (add_at l 1 m))
        \<and> tr' = tr @ [Sched_getcpu, Atomic_add_fetch l 1 ATOMIC_SEQ_CST, Atomic_thread_fence ATOMIC_SEQ_CST]
                   @ snd (side_rcu_wake_up_gp (add_at l 1 m)))"
  by (auto simp: read_end_fallback_def Let_def split: sum.splits prod.splits)

lemma read_end_Inr:
  "side_rcu_read_end e m t = Inr (m', tr) \<longleftrightarrow>
     (if side_rcu_rseq_membarrier_available e \<noteq> 0
      then \<exists>l. counter_ptr m (sint (rseq_cpu_start e)) t F_rseq_end = Inr l \<and>
             (if rseq_addv_ret e = 0
              then m' = fst (side_rcu_wake_up_gp (add_at l 1 m)) \<and>
                   tr = [Rseq_barrier, Rseq_cpu_start, Rseq_addv l 1 (sint (rseq_cpu_start e)) 0, Rseq_barrier]
                        @ snd (side_rcu_wake_up_gp (add_at l 1 m))
              else \<exists>l'. counter_ptr m (if sint (sched_getcpu e) < 0 then 0 else sint (sched_getcpu e)) t F_end = Inr l'
                     \<and> m' = fst (side_rcu_wake_up_gp (add_at l' 1 m))
                     \<and> tr = [Rseq_barrier, Rseq_cpu_start,
                             Rseq_addv l 1 (sint (rseq_cpu_start e)) (rseq_addv_ret e),
                             Sched_getcpu, Atomic_add_fetch l' 1 ATOMIC_SEQ_CST,
                             Atomic_thread_fence ATOMIC_SEQ_CST]
                            @ snd (side_rcu_wake_up_gp (add_at l' 1 m)))
      else \<exists>l'. counter_ptr m (if sint (sched_getcpu e) < 0 then 0 else sint (sched_getcpu e)) t F_end = Inr l'
             \<and> m' = fst (side_rcu_wake_up_gp (add_at l' 1 m))
             \<and> tr = [Sched_getcpu, Atomic_add_fetch l' 1 ATOMIC_SEQ_CST, Atomic_thread_fence ATOMIC_SEQ_CST]
                    @ snd (side_rcu_wake_up_gp (add_at l' 1 m)))"
  by (auto simp: side_rcu_read_end_def Let_def read_end_fallback_Inr split: sum.splits prod.splits)

declare add_at.simps [simp del]

text \<open>Both operations, in one shape: which counter is incremented, and what is done.\<close>

lemma read_begin_shape:
  assumes "side_rcu_read_begin e m = Inr (t, m', tr)"
  obtains cpu f rest where
    "counter_ptr m cpu t f = Inr (Loc_count (nat cpu) (unat t) f)"
    "m' = add_at (Loc_count (nat cpu) (unat t) f) 1 m"
    "t = period (gp_state m)"
    "tr = Atomic_load_n Loc_period ATOMIC_RELAXED # rest"
    "side_rcu_rseq_membarrier_available e \<noteq> 0 \<and> rseq_addv_ret e = 0 \<Longrightarrow>
       cpu = sint (rseq_cpu_start e) \<and> f = F_rseq_begin \<and>
       rest = [Rseq_cpu_start, Rseq_addv (Loc_count (nat cpu) (unat t) f) 1 cpu 0, Rseq_barrier]"
    "side_rcu_rseq_membarrier_available e = 0 \<or> rseq_addv_ret e \<noteq> 0 \<Longrightarrow>
       cpu = (if sint (sched_getcpu e) < 0 then 0 else sint (sched_getcpu e)) \<and> f = F_begin \<and>
       (\<exists>pre. rest = pre @ [Sched_getcpu, Atomic_add_fetch (Loc_count (nat cpu) (unat t) f) 1 ATOMIC_SEQ_CST]
          \<and> (pre = [] \<or> (\<exists>i. pre = [Rseq_cpu_start,
                Rseq_addv (Loc_count i (unat t) F_rseq_begin) 1 (sint (rseq_cpu_start e)) (rseq_addv_ret e)])))"
proof (cases "side_rcu_rseq_membarrier_available e \<noteq> 0 \<and> rseq_addv_ret e = 0")
  case True
  with assms obtain l where l: "counter_ptr m (sint (rseq_cpu_start e)) t F_rseq_begin = Inr l"
    and r: "m' = add_at l 1 m" "t = period (gp_state m)"
       "tr = [Atomic_load_n Loc_period ATOMIC_RELAXED, Rseq_cpu_start,
              Rseq_addv l 1 (sint (rseq_cpu_start e)) 0, Rseq_barrier]"
    by (auto simp: read_begin_Inr)
  from l have "l = Loc_count (nat (sint (rseq_cpu_start e))) (unat t) F_rseq_begin"
    by (auto simp: counter_ptr_Inr)
  with l r True show ?thesis
    by (intro that [of "sint (rseq_cpu_start e)" F_rseq_begin]) auto
next
  case False
  let ?c = "if sint (sched_getcpu e) < 0 then 0 else sint (sched_getcpu e)"
  from False assms obtain l pre where l: "counter_ptr m ?c t F_begin = Inr l"
    and r: "m' = add_at l 1 m" "t = period (gp_state m)"
       "tr = Atomic_load_n Loc_period ATOMIC_RELAXED # pre @ [Sched_getcpu, Atomic_add_fetch l 1 ATOMIC_SEQ_CST]"
    and pre: "pre = [] \<or> (\<exists>l0. counter_ptr m (sint (rseq_cpu_start e)) t F_rseq_begin = Inr l0 \<and> pre = [Rseq_cpu_start,
                Rseq_addv l0 1 (sint (rseq_cpu_start e)) (rseq_addv_ret e)])"
    by (auto simp: read_begin_Inr split: if_splits)
  from l have l': "l = Loc_count (nat ?c) (unat t) F_begin"
    by (auto simp: counter_ptr_Inr)
  from pre have pre': "pre = [] \<or> (\<exists>i. pre = [Rseq_cpu_start,
                Rseq_addv (Loc_count i (unat t) F_rseq_begin) 1 (sint (rseq_cpu_start e)) (rseq_addv_ret e)])"
    by (auto simp: counter_ptr_Inr)
  show ?thesis
    apply (rule that [of ?c F_begin "pre @ [Sched_getcpu, Atomic_add_fetch l 1 ATOMIC_SEQ_CST]"])
    using l l' r pre' False by auto
qed

lemma read_end_shape:
  assumes "side_rcu_read_end e m t = Inr (m', tr)"
  obtains cpu f pre inc mid where
    "counter_ptr m cpu t f = Inr (Loc_count (nat cpu) (unat t) f)"
    "m' = fst (side_rcu_wake_up_gp (add_at (Loc_count (nat cpu) (unat t) f) 1 m))"
    "tr = pre @ inc # mid @ snd (side_rcu_wake_up_gp (add_at (Loc_count (nat cpu) (unat t) f) 1 m))"
    "side_rcu_rseq_membarrier_available e \<noteq> 0 \<and> rseq_addv_ret e = 0 \<Longrightarrow>
       cpu = sint (rseq_cpu_start e) \<and> f = F_rseq_end \<and> pre = [Rseq_barrier, Rseq_cpu_start] \<and>
       inc = Rseq_addv (Loc_count (nat cpu) (unat t) f) 1 cpu 0 \<and> mid = [Rseq_barrier]"
    "side_rcu_rseq_membarrier_available e = 0 \<or> rseq_addv_ret e \<noteq> 0 \<Longrightarrow>
       cpu = (if sint (sched_getcpu e) < 0 then 0 else sint (sched_getcpu e)) \<and> f = F_end \<and>
       inc = Atomic_add_fetch (Loc_count (nat cpu) (unat t) f) 1 ATOMIC_SEQ_CST \<and>
       mid = [Atomic_thread_fence ATOMIC_SEQ_CST] \<and>
       (pre = [Sched_getcpu] \<or> (\<exists>i. pre = [Rseq_barrier, Rseq_cpu_start,
           Rseq_addv (Loc_count i (unat t) F_rseq_end) 1 (sint (rseq_cpu_start e)) (rseq_addv_ret e),
           Sched_getcpu]))"
proof (cases "side_rcu_rseq_membarrier_available e \<noteq> 0 \<and> rseq_addv_ret e = 0")
  case True
  with assms obtain l where l: "counter_ptr m (sint (rseq_cpu_start e)) t F_rseq_end = Inr l"
    and r: "m' = fst (side_rcu_wake_up_gp (add_at l 1 m))"
       "tr = [Rseq_barrier, Rseq_cpu_start, Rseq_addv l 1 (sint (rseq_cpu_start e)) 0, Rseq_barrier]
             @ snd (side_rcu_wake_up_gp (add_at l 1 m))"
    by (auto simp: read_end_Inr)
  from l have "l = Loc_count (nat (sint (rseq_cpu_start e))) (unat t) F_rseq_end"
    by (auto simp: counter_ptr_Inr)
  with l r True show ?thesis
    by (intro that [of "sint (rseq_cpu_start e)" F_rseq_end "[Rseq_barrier, Rseq_cpu_start]" _ "[Rseq_barrier]"]) auto
next
  case False
  let ?c = "if sint (sched_getcpu e) < 0 then 0 else sint (sched_getcpu e)"
  from False assms obtain l pre where l: "counter_ptr m ?c t F_end = Inr l"
    and r: "m' = fst (side_rcu_wake_up_gp (add_at l 1 m))"
       "tr = pre @ Atomic_add_fetch l 1 ATOMIC_SEQ_CST # [Atomic_thread_fence ATOMIC_SEQ_CST]
             @ snd (side_rcu_wake_up_gp (add_at l 1 m))"
    and pre: "pre = [Sched_getcpu] \<or>
        (\<exists>l0. counter_ptr m (sint (rseq_cpu_start e)) t F_rseq_end = Inr l0 \<and>
           pre = [Rseq_barrier, Rseq_cpu_start, Rseq_addv l0 1 (sint (rseq_cpu_start e)) (rseq_addv_ret e),
                  Sched_getcpu])"
    by (auto simp: read_end_Inr split: if_splits)
  from l have l': "l = Loc_count (nat ?c) (unat t) F_end"
    by (auto simp: counter_ptr_Inr)
  from pre have pre': "pre = [Sched_getcpu] \<or> (\<exists>i. pre = [Rseq_barrier, Rseq_cpu_start,
           Rseq_addv (Loc_count i (unat t) F_rseq_end) 1 (sint (rseq_cpu_start e)) (rseq_addv_ret e),
           Sched_getcpu])"
    by (auto simp: counter_ptr_Inr)
  from l l' r pre' False show ?thesis
    by (intro that [of ?c F_end pre _ "[Atomic_thread_fence ATOMIC_SEQ_CST]"]) auto
qed

subsection \<open>Word arithmetic\<close>

lemma inc_le_below_max: "v \<noteq> - 1 \<Longrightarrow> (v::uintptr_t) \<le> v + 1"
  by (meson inc_less_eq_triv_imp nle_le)

lemma sint_eq_uint_below:
  fixes v n :: "32 word"
  assumes "uint v < sint n"
  shows "sint v = uint v"
proof -
  have "sint n < 2 ^ 31" using sint_lt [of n] by simp
  with assms have "uint v < 2 ^ 31" by simp
  moreover have "- (2 ^ 31) \<le> uint v" by (rule order_trans [of _ 0]) simp_all
  ultimately have "signed_take_bit 31 (uint v) = uint v"
    by (simp add: signed_take_bit_int_eq_self)
  then show ?thesis by (simp add: sint_uint)
qed

subsection \<open>The counters after a call\<close>

lemma read_begin_counters:
  assumes "side_rcu_read_begin e m = Inr (t, m', tr)"
  obtains i f v where "f = F_begin \<or> f = F_rseq_begin"
    "counter_value m i (unat t) f = Some v"
    "\<And>i' j' f'. counter_value m' i' j' f' =
        (if i' = i \<and> j' = unat t \<and> f' = f then Some (v + 1) else counter_value m i' j' f')"
proof -
  from assms obtain cpu f where
    p: "counter_ptr m cpu t f = Inr (Loc_count (nat cpu) (unat t) f)"
    and m': "m' = add_at (Loc_count (nat cpu) (unat t) f) 1 m"
    and fastp: "side_rcu_rseq_membarrier_available e \<noteq> 0 \<and> rseq_addv_ret e = 0 \<Longrightarrow> f = F_rseq_begin"
    and slowp: "side_rcu_rseq_membarrier_available e = 0 \<or> rseq_addv_ret e \<noteq> 0 \<Longrightarrow> f = F_begin"
    by (rule read_begin_shape) blast
  have f: "f = F_begin \<or> f = F_rseq_begin" using fastp slowp by blast
  from counter_ptr_add_at [OF p, of 1] obtain v where
    "counter_value m (nat cpu) (unat t) f = Some v"
    "\<And>i' j' f'. counter_value (add_at (Loc_count (nat cpu) (unat t) f) 1 m) i' j' f' =
        (if i' = nat cpu \<and> j' = unat t \<and> f' = f then Some (v + 1) else counter_value m i' j' f')"
    by auto
  with f show ?thesis
    unfolding m' [symmetric] by (rule that)
qed

lemma read_end_counters:
  assumes "side_rcu_read_end e m t = Inr (m', tr)"
  obtains i f v where "f = F_end \<or> f = F_rseq_end"
    "counter_value m i (unat t) f = Some v"
    "\<And>i' j' f'. counter_value m' i' j' f' =
        (if i' = i \<and> j' = unat t \<and> f' = f then Some (v + 1) else counter_value m i' j' f')"
proof -
  from assms obtain cpu f where
    p: "counter_ptr m cpu t f = Inr (Loc_count (nat cpu) (unat t) f)"
    and m': "m' = fst (side_rcu_wake_up_gp (add_at (Loc_count (nat cpu) (unat t) f) 1 m))"
    and fastp: "side_rcu_rseq_membarrier_available e \<noteq> 0 \<and> rseq_addv_ret e = 0 \<Longrightarrow> f = F_rseq_end"
    and slowp: "side_rcu_rseq_membarrier_available e = 0 \<or> rseq_addv_ret e \<noteq> 0 \<Longrightarrow> f = F_end"
    by (rule read_end_shape) blast
  have f: "f = F_end \<or> f = F_rseq_end" using fastp slowp by blast
  from counter_ptr_add_at [OF p, of 1] obtain v where
    "counter_value m (nat cpu) (unat t) f = Some v"
    "\<And>i' j' f'. counter_value (add_at (Loc_count (nat cpu) (unat t) f) 1 m) i' j' f' =
        (if i' = nat cpu \<and> j' = unat t \<and> f' = f then Some (v + 1) else counter_value m i' j' f')"
    by auto
  then have "counter_value m (nat cpu) (unat t) f = Some v"
    "\<And>i' j' f'. counter_value m' i' j' f' =
        (if i' = nat cpu \<and> j' = unat t \<and> f' = f then Some (v + 1) else counter_value m i' j' f')"
    by (simp_all add: m' wake_up_gp_counter)
  with f show ?thesis
    by (rule that)
qed

subsection \<open>Accesses in bounds\<close>

lemma counter_ptr_ok:
  assumes "percpu_array_ok m" "0 \<le> cpu" "cpu < sint (nr_cpus (gp_state m))" "unat p < 2"
  shows "counter_ptr m cpu p f = Inr (Loc_count (nat cpu) (unat p) f)"
  using assms by (auto simp: counter_ptr_Inr percpu_array_ok_def split: option.splits)

lemma rseq_cpu_ok:
  assumes "cpu_ids_ok e m" "side_rcu_rseq_membarrier_available e \<noteq> 0"
  shows "0 \<le> sint (rseq_cpu_start e) \<and> sint (rseq_cpu_start e) < sint (nr_cpus (gp_state m))"
proof -
  from assms have "uint (rseq_cpu_start e) < sint (nr_cpus (gp_state m))"
    by (simp add: cpu_ids_ok_def)
  then show ?thesis by (simp add: sint_eq_uint_below)
qed

lemma sched_cpu_ok:
  assumes "cpu_ids_ok e m" "side_rcu_rseq_membarrier_available e = 0 \<or> rseq_addv_ret e \<noteq> 0"
  shows "0 \<le> (if sint (sched_getcpu e) < 0 then 0 else sint (sched_getcpu e))
       \<and> (if sint (sched_getcpu e) < 0 then 0 else sint (sched_getcpu e)) < sint (nr_cpus (gp_state m))"
  using assms by (auto simp: cpu_ids_ok_def)

lemma read_begin_defined:
  assumes "percpu_array_ok m" "cpu_ids_ok e m" "unat (period (gp_state m)) < 2"
  shows "\<exists>m' tr. side_rcu_read_begin e m = Inr (period (gp_state m), m', tr)"
proof (cases "side_rcu_rseq_membarrier_available e \<noteq> 0")
  case True
  note r = counter_ptr_ok [OF assms(1) _ _ assms(3), of "sint (rseq_cpu_start e)" F_rseq_begin]
  show ?thesis
  proof (cases "rseq_addv_ret e = 0")
    case True
    with \<open>side_rcu_rseq_membarrier_available e \<noteq> 0\<close> r rseq_cpu_ok [OF assms(2)]
    show ?thesis by (simp add: read_begin_Inr)
  next
    case False
    with \<open>side_rcu_rseq_membarrier_available e \<noteq> 0\<close> r rseq_cpu_ok [OF assms(2)]
      counter_ptr_ok [OF assms(1) _ _ assms(3), of _ F_begin] sched_cpu_ok [OF assms(2)]
    show ?thesis by (simp add: read_begin_Inr)
  qed
next
  case False
  with counter_ptr_ok [OF assms(1) _ _ assms(3), of _ F_begin] sched_cpu_ok [OF assms(2)]
  show ?thesis by (simp add: read_begin_Inr)
qed

lemma read_end_defined:
  assumes "percpu_array_ok m" "cpu_ids_ok e m" "unat t < 2"
  shows "\<exists>m' tr. side_rcu_read_end e m t = Inr (m', tr)"
proof (cases "side_rcu_rseq_membarrier_available e \<noteq> 0")
  case True
  note r = counter_ptr_ok [OF assms(1) _ _ assms(3), of "sint (rseq_cpu_start e)" F_rseq_end]
  show ?thesis
  proof (cases "rseq_addv_ret e = 0")
    case True
    with \<open>side_rcu_rseq_membarrier_available e \<noteq> 0\<close> r rseq_cpu_ok [OF assms(2)]
    show ?thesis by (simp add: read_end_Inr)
  next
    case False
    with \<open>side_rcu_rseq_membarrier_available e \<noteq> 0\<close> r rseq_cpu_ok [OF assms(2)]
      counter_ptr_ok [OF assms(1) _ _ assms(3), of _ F_end] sched_cpu_ok [OF assms(2)]
    show ?thesis by (simp add: read_end_Inr)
  qed
next
  case False
  with counter_ptr_ok [OF assms(1) _ _ assms(3), of _ F_end] sched_cpu_ok [OF assms(2)]
  show ?thesis by (simp add: read_end_Inr)
qed

lemma read_begin_ops_in_bounds:
  assumes "side_rcu_read_begin e m = Inr (t, m', tr)"
    and "cpu_arrays m (percpu_state (gp_state m)) = Some arr"
  shows "\<forall>ev\<in>set tr. \<forall>i j f. event_loc ev = Some (Loc_count i j f) \<longrightarrow> i < length arr \<and> j < 2"
  using assms by (auto simp: read_begin_Inr counter_ptr_Inr split: if_splits)

lemma read_end_ops_in_bounds:
  assumes "side_rcu_read_end e m t = Inr (m', tr)"
    and "cpu_arrays m (percpu_state (gp_state m)) = Some arr"
  shows "\<forall>ev\<in>set tr. \<forall>i j f. event_loc ev = Some (Loc_count i j f) \<longrightarrow> i < length arr \<and> j < 2"
  using assms by (auto simp: read_end_Inr counter_ptr_Inr wake_up_gp_snd split: if_splits)

lemma read_begin_cpu0:
  assumes "side_rcu_read_begin e m = Inr (t, m', tr)"
    and "sint (sched_getcpu e) < 0"
    and "side_rcu_rseq_membarrier_available e = 0 \<or> rseq_addv_ret e \<noteq> 0"
  shows "\<exists>v. counter_value m 0 (unat t) F_begin = Some v \<and> counter_value m' 0 (unat t) F_begin = Some (v + 1)"
proof -
  from assms(1) obtain cpu f where
    p: "counter_ptr m cpu t f = Inr (Loc_count (nat cpu) (unat t) f)"
    and m': "m' = add_at (Loc_count (nat cpu) (unat t) f) 1 m"
    and slowp: "side_rcu_rseq_membarrier_available e = 0 \<or> rseq_addv_ret e \<noteq> 0 \<Longrightarrow>
       cpu = (if sint (sched_getcpu e) < 0 then 0 else sint (sched_getcpu e)) \<and> f = F_begin"
    by (rule read_begin_shape) blast
  from slowp [OF assms(3)] assms(2) have "cpu = 0" "f = F_begin" by simp_all
  with counter_ptr_add_at [OF p, of 1] m' show ?thesis by auto
qed

lemma read_end_cpu0:
  assumes "side_rcu_read_end e m t = Inr (m', tr)"
    and "sint (sched_getcpu e) < 0"
    and "side_rcu_rseq_membarrier_available e = 0 \<or> rseq_addv_ret e \<noteq> 0"
  shows "\<exists>v. counter_value m 0 (unat t) F_end = Some v \<and> counter_value m' 0 (unat t) F_end = Some (v + 1)"
proof -
  from assms(1) obtain cpu f where
    p: "counter_ptr m cpu t f = Inr (Loc_count (nat cpu) (unat t) f)"
    and m': "m' = fst (side_rcu_wake_up_gp (add_at (Loc_count (nat cpu) (unat t) f) 1 m))"
    and slowp: "side_rcu_rseq_membarrier_available e = 0 \<or> rseq_addv_ret e \<noteq> 0 \<Longrightarrow>
       cpu = (if sint (sched_getcpu e) < 0 then 0 else sint (sched_getcpu e)) \<and> f = F_end"
    by (rule read_end_shape) blast
  from slowp [OF assms(3)] assms(2) have "cpu = 0" "f = F_end" by simp_all
  with counter_ptr_add_at [OF p, of 1] m' show ?thesis by (auto simp: wake_up_gp_counter)
qed

subsection \<open>The examples, evaluated\<close>

lemmas example_defs =
  two_cpus_def two_cpus_sleeping_def fast_env_def abort_env_def idle_cpu_def
  zero_count_def fast_begun_def fast_begin_ops_def fallback_begun_def abort_begin_ops_def
  migrated_ended_def abort_end_ops_def woken_def fast_end_wake_ops_def saturated_cpus_def

lemmas eval_defs =
  read_begin_Inr read_end_Inr counter_ptr_Inr add_at.simps Let_def get_count_def set_count_def
  wake_up_gp_fst wake_up_gp_snd

lemma begin_fast_two_cpus:
  "side_rcu_read_begin fast_env two_cpus = Inr (1, fast_begun, fast_begin_ops)"
  by (simp add: eval_defs example_defs)

lemma begin_abort_two_cpus:
  "side_rcu_read_begin abort_env two_cpus = Inr (1, fallback_begun, abort_begin_ops)"
  by (simp add: eval_defs example_defs)

lemma end_abort_fast_begun:
  "side_rcu_read_end abort_env fast_begun 1 = Inr (migrated_ended, abort_end_ops)"
  by (simp add: eval_defs example_defs)

lemma end_fast_sleeping:
  "side_rcu_read_end fast_env two_cpus_sleeping 1 = Inr (woken, fast_end_wake_ops)"
  by (simp add: eval_defs example_defs)

lemma begin_abort_saturated:
  "side_rcu_read_begin abort_env saturated_cpus = Inr (1, two_cpus, abort_begin_ops)"
  by (simp add: eval_defs example_defs)

lemma two_cpus_ok: "percpu_array_ok two_cpus" "percpu_array_ok fast_begun"
  by (simp_all add: percpu_array_ok_def example_defs)

lemma example_ids_ok: "cpu_ids_ok fast_env two_cpus" "cpu_ids_ok abort_env two_cpus"
  "cpu_ids_ok abort_env fast_begun"
  by (simp_all add: cpu_ids_ok_def example_defs)

section \<open>The claims\<close>

text \<open>
  Claim C2. A call of \<open>side_rcu_read_begin\<close> returns the value the field \<^verbatim>\<open>period\<close> held
  on entry. The call reads that field once, by a relaxed atomic load that is its first
  operation, and leaves it as it was. The answers of the surroundings are arbitrary, so this
  covers the fast path and the fallback.
\<close>

theorem read_begin_returns_loaded_period:
  assumes "side_rcu_read_begin e m = Inr (t, m', tr)"
  shows "t = period (gp_state m)
       \<and> tr \<noteq> [] \<and> hd tr = Atomic_load_n Loc_period ATOMIC_RELAXED
       \<and> filter (\<lambda>ev. event_loc ev = Some Loc_period) tr = [Atomic_load_n Loc_period ATOMIC_RELAXED]
       \<and> period (gp_state m') = period (gp_state m)"
proof -
  from assms obtain cpu f rest where s: "m' = add_at (Loc_count (nat cpu) (unat t) f) 1 m"
    "t = period (gp_state m)" "tr = Atomic_load_n Loc_period ATOMIC_RELAXED # rest"
    and fast: "side_rcu_rseq_membarrier_available e \<noteq> 0 \<and> rseq_addv_ret e = 0 \<Longrightarrow>
       rest = [Rseq_cpu_start, Rseq_addv (Loc_count (nat cpu) (unat t) f) 1 cpu 0, Rseq_barrier]"
    and slow: "side_rcu_rseq_membarrier_available e = 0 \<or> rseq_addv_ret e \<noteq> 0 \<Longrightarrow>
       (\<exists>pre. rest = pre @ [Sched_getcpu, Atomic_add_fetch (Loc_count (nat cpu) (unat t) f) 1 ATOMIC_SEQ_CST]
          \<and> (pre = [] \<or> (\<exists>i. pre = [Rseq_cpu_start,
                Rseq_addv (Loc_count i (unat t) F_rseq_begin) 1 (sint (rseq_cpu_start e)) (rseq_addv_ret e)])))"
    by (rule read_begin_shape) blast
  have "filter (\<lambda>ev. event_loc ev = Some Loc_period) rest = []"
    using fast slow by (cases "side_rcu_rseq_membarrier_available e \<noteq> 0 \<and> rseq_addv_ret e = 0") auto
  with s show ?thesis
    by (simp add: gp_state_add_at)
qed

text \<open>
  On two CPUs, on the fast path and on the fallback after an abort: the ticket is 1, the
  period of the state.
\<close>

theorem read_begin_returns_loaded_period_witness:
  "side_rcu_read_begin fast_env two_cpus = Inr (1, fast_begun, fast_begin_ops)
   \<and> (1 = period (gp_state two_cpus)
       \<and> fast_begin_ops \<noteq> [] \<and> hd fast_begin_ops = Atomic_load_n Loc_period ATOMIC_RELAXED
       \<and> filter (\<lambda>ev. event_loc ev = Some Loc_period) fast_begin_ops = [Atomic_load_n Loc_period ATOMIC_RELAXED]
       \<and> period (gp_state fast_begun) = period (gp_state two_cpus))
   \<and> side_rcu_read_begin abort_env two_cpus = Inr (1, fallback_begun, abort_begin_ops)
   \<and> (1 = period (gp_state two_cpus)
       \<and> abort_begin_ops \<noteq> [] \<and> hd abort_begin_ops = Atomic_load_n Loc_period ATOMIC_RELAXED
       \<and> filter (\<lambda>ev. event_loc ev = Some Loc_period) abort_begin_ops = [Atomic_load_n Loc_period ATOMIC_RELAXED]
       \<and> period (gp_state fallback_begun) = period (gp_state two_cpus))"
  by (rule conjI [OF begin_fast_two_cpus
        conjI [OF read_begin_returns_loaded_period [OF begin_fast_two_cpus]
          conjI [OF begin_abort_two_cpus read_begin_returns_loaded_period [OF begin_abort_two_cpus]]]])

text \<open>
  Claim C3. When the flag is 0 or \<^verbatim>\<open>rseq_addv\<close> does not return 0, a call of
  \<open>side_rcu_read_begin\<close> asks \<^verbatim>\<open>sched_getcpu\<close> for the CPU, once, takes CPU 0 when the
  answer is negative, and then performs, as its last operation, a sequentially consistent
  \<^verbatim>\<open>__atomic_add_fetch\<close> of 1 on the \<^verbatim>\<open>begin\<close> counter of that CPU for the period read on
  entry: the counter holds one more (in \<^verbatim>\<open>uintptr_t\<close> arithmetic) after the call.
\<close>

theorem read_begin_fallback_increment:
  assumes "side_rcu_rseq_membarrier_available e = 0 \<or> rseq_addv_ret e \<noteq> 0"
    and "side_rcu_read_begin e m = Inr (t, m', tr)"
    and "cpu = (if sint (sched_getcpu e) < 0 then 0 else nat (sint (sched_getcpu e)))"
  shows "\<exists>v pre. t = period (gp_state m)
           \<and> counter_value m cpu (unat t) F_begin = Some v
           \<and> counter_value m' cpu (unat t) F_begin = Some (v + 1)
           \<and> tr = pre @ [Sched_getcpu, Atomic_add_fetch (Loc_count cpu (unat t) F_begin) 1 ATOMIC_SEQ_CST]
           \<and> Sched_getcpu \<notin> set pre"
proof -
  let ?c = "if sint (sched_getcpu e) < 0 then 0 else sint (sched_getcpu e)"
  have c: "nat ?c = cpu" using assms(3) by simp
  from assms(2) obtain cpu' f rest where
    p: "counter_ptr m cpu' t f = Inr (Loc_count (nat cpu') (unat t) f)"
    and s: "m' = add_at (Loc_count (nat cpu') (unat t) f) 1 m"
    "t = period (gp_state m)" "tr = Atomic_load_n Loc_period ATOMIC_RELAXED # rest"
    and slow: "side_rcu_rseq_membarrier_available e = 0 \<or> rseq_addv_ret e \<noteq> 0 \<Longrightarrow>
       cpu' = ?c \<and> f = F_begin \<and>
       (\<exists>pre. rest = pre @ [Sched_getcpu, Atomic_add_fetch (Loc_count (nat cpu') (unat t) f) 1 ATOMIC_SEQ_CST]
          \<and> (pre = [] \<or> (\<exists>i. pre = [Rseq_cpu_start,
                Rseq_addv (Loc_count i (unat t) F_rseq_begin) 1 (sint (rseq_cpu_start e)) (rseq_addv_ret e)])))"
    by (rule read_begin_shape) blast
  from slow [OF assms(1)] obtain pre where f: "cpu' = ?c" "f = F_begin"
    and rest: "rest = pre @ [Sched_getcpu, Atomic_add_fetch (Loc_count (nat cpu') (unat t) f) 1 ATOMIC_SEQ_CST]"
    and pre: "pre = [] \<or> (\<exists>i. pre = [Rseq_cpu_start,
                Rseq_addv (Loc_count i (unat t) F_rseq_begin) 1 (sint (rseq_cpu_start e)) (rseq_addv_ret e)])"
    by blast
  from counter_ptr_add_at [OF p, of 1] obtain v where
    v: "counter_value m (nat cpu') (unat t) f = Some v"
    "counter_value (add_at (Loc_count (nat cpu') (unat t) f) 1 m) (nat cpu') (unat t) f = Some (v + 1)"
    by auto
  have "tr = (Atomic_load_n Loc_period ATOMIC_RELAXED # pre)
              @ [Sched_getcpu, Atomic_add_fetch (Loc_count cpu (unat t) F_begin) 1 ATOMIC_SEQ_CST]"
    using s(3) rest f c by simp
  moreover have "Sched_getcpu \<notin> set (Atomic_load_n Loc_period ATOMIC_RELAXED # pre)"
    using pre by auto
  ultimately show ?thesis
    using v s f c by blast
qed

text \<open>
  On two CPUs, with \<^verbatim>\<open>rseq_addv\<close> returning -1 and \<^verbatim>\<open>sched_getcpu\<close> returning -1: the
  counter incremented is the one of CPU 0.
\<close>

theorem read_begin_fallback_increment_witness:
  "(side_rcu_rseq_membarrier_available abort_env = 0 \<or> rseq_addv_ret abort_env \<noteq> 0)
   \<and> side_rcu_read_begin abort_env two_cpus = Inr (1, fallback_begun, abort_begin_ops)
   \<and> 0 = (if sint (sched_getcpu abort_env) < 0 then 0 else nat (sint (sched_getcpu abort_env)))
   \<and> (\<exists>v pre. 1 = period (gp_state two_cpus)
           \<and> counter_value two_cpus 0 (unat (1::c_uint)) F_begin = Some v
           \<and> counter_value fallback_begun 0 (unat (1::c_uint)) F_begin = Some (v + 1)
           \<and> abort_begin_ops = pre @ [Sched_getcpu, Atomic_add_fetch (Loc_count 0 (unat (1::c_uint)) F_begin) 1 ATOMIC_SEQ_CST]
           \<and> Sched_getcpu \<notin> set pre)"
proof -
  have h1: "side_rcu_rseq_membarrier_available abort_env = 0 \<or> rseq_addv_ret abort_env \<noteq> 0"
    by (simp add: abort_env_def)
  have h3: "0 = (if sint (sched_getcpu abort_env) < 0 then 0 else nat (sint (sched_getcpu abort_env)))"
    by (simp add: abort_env_def)
  show ?thesis
    by (rule conjI [OF h1 conjI [OF begin_abort_two_cpus conjI [OF h3
          read_begin_fallback_increment [OF h1 begin_abort_two_cpus h3]]]])
qed

text \<open>
  Claim C4. A call of \<open>side_rcu_read_end\<close> with ticket \<open>t\<close> adds 1 to an end counter of
  period \<open>t\<close>: \<^verbatim>\<open>rseq_end\<close> of the CPU \<^verbatim>\<open>rseq_cpu_start\<close> gave when \<^verbatim>\<open>rseq_addv\<close> commits,
  \<^verbatim>\<open>end\<close> of the CPU \<^verbatim>\<open>sched_getcpu\<close> gave (0 when negative) otherwise. The CPU comes from
  the surroundings of this call alone, whatever CPU recorded the begin. No operation of the
  call is on the field \<^verbatim>\<open>period\<close>, every counter it names is an end counter of period \<open>t\<close>,
  and all \<^verbatim>\<open>begin\<close> and \<^verbatim>\<open>rseq_begin\<close> counters keep their values.
\<close>

theorem read_end_counts_under_ticket:
  assumes "side_rcu_read_end e m t = Inr (m', tr)"
    and "fast = (side_rcu_rseq_membarrier_available e \<noteq> 0 \<and> rseq_addv_ret e = 0)"
    and "cpu = (if fast then nat (sint (rseq_cpu_start e))
                else if sint (sched_getcpu e) < 0 then 0 else nat (sint (sched_getcpu e)))"
    and "f = (if fast then F_rseq_end else F_end)"
  shows "(\<exists>v. counter_value m cpu (unat t) f = Some v \<and> counter_value m' cpu (unat t) f = Some (v + 1))
       \<and> (\<forall>ev\<in>set tr. event_loc ev \<noteq> Some Loc_period)
       \<and> (\<forall>ev\<in>set tr. \<forall>i j g. event_loc ev = Some (Loc_count i j g) \<longrightarrow>
             j = unat t \<and> (g = F_end \<or> g = F_rseq_end))
       \<and> (\<forall>i j. counter_value m' i j F_begin = counter_value m i j F_begin
               \<and> counter_value m' i j F_rseq_begin = counter_value m i j F_rseq_begin)
       \<and> period (gp_state m') = period (gp_state m)"
proof -
  let ?c = "if sint (sched_getcpu e) < 0 then 0 else sint (sched_getcpu e)"
  from assms(1) obtain cpu' f' pre inc mid where
    p: "counter_ptr m cpu' t f' = Inr (Loc_count (nat cpu') (unat t) f')"
    and m': "m' = fst (side_rcu_wake_up_gp (add_at (Loc_count (nat cpu') (unat t) f') 1 m))"
    and tr: "tr = pre @ inc # mid @ snd (side_rcu_wake_up_gp (add_at (Loc_count (nat cpu') (unat t) f') 1 m))"
    and fastp: "side_rcu_rseq_membarrier_available e \<noteq> 0 \<and> rseq_addv_ret e = 0 \<Longrightarrow>
       cpu' = sint (rseq_cpu_start e) \<and> f' = F_rseq_end \<and> pre = [Rseq_barrier, Rseq_cpu_start] \<and>
       inc = Rseq_addv (Loc_count (nat cpu') (unat t) f') 1 cpu' 0 \<and> mid = [Rseq_barrier]"
    and slowp: "side_rcu_rseq_membarrier_available e = 0 \<or> rseq_addv_ret e \<noteq> 0 \<Longrightarrow>
       cpu' = ?c \<and> f' = F_end \<and>
       inc = Atomic_add_fetch (Loc_count (nat cpu') (unat t) f') 1 ATOMIC_SEQ_CST \<and>
       mid = [Atomic_thread_fence ATOMIC_SEQ_CST] \<and>
       (pre = [Sched_getcpu] \<or> (\<exists>i. pre = [Rseq_barrier, Rseq_cpu_start,
           Rseq_addv (Loc_count i (unat t) F_rseq_end) 1 (sint (rseq_cpu_start e)) (rseq_addv_ret e),
           Sched_getcpu]))"
    by (rule read_end_shape) blast
  have cf: "nat cpu' = cpu \<and> f' = f \<and> (f' = F_end \<or> f' = F_rseq_end)"
    using fastp slowp assms(2-4) by (cases fast) auto
  from counter_ptr_add_at [OF p, of 1] obtain v where
    v: "counter_value m (nat cpu') (unat t) f' = Some v"
    and upd: "\<And>i' j' g. counter_value (add_at (Loc_count (nat cpu') (unat t) f') 1 m) i' j' g =
                 (if i' = nat cpu' \<and> j' = unat t \<and> g = f' then Some (v + 1) else counter_value m i' j' g)"
    by auto
  have cv: "\<And>i' j' g. counter_value m' i' j' g =
                 (if i' = nat cpu' \<and> j' = unat t \<and> g = f' then Some (v + 1) else counter_value m i' j' g)"
    using upd by (simp add: m' wake_up_gp_counter)
  have 1: "\<exists>v. counter_value m cpu (unat t) f = Some v \<and> counter_value m' cpu (unat t) f = Some (v + 1)"
    using v cv cf by auto
  have ops: "\<forall>ev\<in>set tr. event_loc ev \<noteq> Some Loc_period
               \<and> (\<forall>i j g. event_loc ev = Some (Loc_count i j g) \<longrightarrow> j = unat t \<and> (g = F_end \<or> g = F_rseq_end))"
    using fastp slowp cf unfolding tr wake_up_gp_snd
    by (cases fast) (use assms(2) in auto)
  have 4: "\<forall>i j. counter_value m' i j F_begin = counter_value m i j F_begin
               \<and> counter_value m' i j F_rseq_begin = counter_value m i j F_rseq_begin"
    using cv cf by auto
  have 5: "period (gp_state m') = period (gp_state m)"
    by (simp add: m' wake_up_gp_fst gp_state_add_at)
  from 1 ops 4 5 show ?thesis by blast
qed

text \<open>
  A reader whose begin was recorded on CPU 1 ends on CPU 0, under the same period 1.
\<close>

theorem read_end_counts_under_ticket_witness:
  "side_rcu_read_end abort_env fast_begun 1 = Inr (migrated_ended, abort_end_ops)
   \<and> False = (side_rcu_rseq_membarrier_available abort_env \<noteq> 0 \<and> rseq_addv_ret abort_env = 0)
   \<and> 0 = (if False then nat (sint (rseq_cpu_start abort_env))
           else if sint (sched_getcpu abort_env) < 0 then 0 else nat (sint (sched_getcpu abort_env)))
   \<and> F_end = (if False then F_rseq_end else F_end)
   \<and> (\<exists>v. counter_value fast_begun 0 (unat (1::c_uint)) F_end = Some v
            \<and> counter_value migrated_ended 0 (unat (1::c_uint)) F_end = Some (v + 1))
   \<and> (\<forall>i j. counter_value migrated_ended i j F_begin = counter_value fast_begun i j F_begin
            \<and> counter_value migrated_ended i j F_rseq_begin = counter_value fast_begun i j F_rseq_begin)
   \<and> period (gp_state migrated_ended) = period (gp_state fast_begun)"
proof -
  have h2: "False = (side_rcu_rseq_membarrier_available abort_env \<noteq> 0 \<and> rseq_addv_ret abort_env = 0)"
    by (simp add: abort_env_def)
  have h3: "0 = (if False then nat (sint (rseq_cpu_start abort_env))
           else if sint (sched_getcpu abort_env) < 0 then 0 else nat (sint (sched_getcpu abort_env)))"
    by (simp add: abort_env_def)
  have h4: "F_end = (if False then F_rseq_end else F_end)"
    by simp
  note c = read_end_counts_under_ticket [OF end_abort_fast_begun h2 h3 h4]
  show ?thesis
    by (rule conjI [OF end_abort_fast_begun conjI [OF h2 conjI [OF h3 conjI [OF h4
          conjI [OF c [THEN conjunct1] c [THEN conjunct2, THEN conjunct2, THEN conjunct2]]]]]])
qed

text \<open>
  Claim C5. The operations of a call of \<open>side_rcu_read_end\<close> are: some operations
  \<open>pre\<close>, the addition \<open>inc\<close> of 1 to an end counter, barriers \<open>mid\<close>, a relaxed load of the
  \<^verbatim>\<open>futex\<close> field, and \<open>post\<close>; nothing before the load is on the \<^verbatim>\<open>futex\<close> field. If the
  field holds -1, the call stores 0 in it and issues one \<^verbatim>\<open>FUTEX_WAKE\<close> of one waiter, and
  nothing else after the load; if it holds any other value, the field keeps it and nothing
  follows the load. This is so on the fast path and on the fallback.
\<close>

theorem read_end_wakes_sleeping_gp:
  assumes "side_rcu_read_end e m t = Inr (m', tr)"
  shows "\<exists>pre inc mid post.
           tr = pre @ inc # mid @ Atomic_load_n Loc_futex ATOMIC_RELAXED # post
         \<and> end_increment (unat t) inc
         \<and> (\<forall>ev\<in>set (pre @ inc # mid). event_loc ev \<noteq> Some Loc_futex)
         \<and> (if futex (gp_state m) = - 1
            then futex (gp_state m') = 0 \<and> post = [Atomic_store_n Loc_futex ATOMIC_RELAXED, Futex_wake 1]
            else futex (gp_state m') = futex (gp_state m) \<and> post = [])"
proof -
  let ?c = "if sint (sched_getcpu e) < 0 then 0 else sint (sched_getcpu e)"
  from assms(1) obtain cpu' f' pre inc mid where
    m': "m' = fst (side_rcu_wake_up_gp (add_at (Loc_count (nat cpu') (unat t) f') 1 m))"
    and tr: "tr = pre @ inc # mid @ snd (side_rcu_wake_up_gp (add_at (Loc_count (nat cpu') (unat t) f') 1 m))"
    and fastp: "side_rcu_rseq_membarrier_available e \<noteq> 0 \<and> rseq_addv_ret e = 0 \<Longrightarrow>
       cpu' = sint (rseq_cpu_start e) \<and> f' = F_rseq_end \<and> pre = [Rseq_barrier, Rseq_cpu_start] \<and>
       inc = Rseq_addv (Loc_count (nat cpu') (unat t) f') 1 cpu' 0 \<and> mid = [Rseq_barrier]"
    and slowp: "side_rcu_rseq_membarrier_available e = 0 \<or> rseq_addv_ret e \<noteq> 0 \<Longrightarrow>
       cpu' = ?c \<and> f' = F_end \<and>
       inc = Atomic_add_fetch (Loc_count (nat cpu') (unat t) f') 1 ATOMIC_SEQ_CST \<and>
       mid = [Atomic_thread_fence ATOMIC_SEQ_CST] \<and>
       (pre = [Sched_getcpu] \<or> (\<exists>i. pre = [Rseq_barrier, Rseq_cpu_start,
           Rseq_addv (Loc_count i (unat t) F_rseq_end) 1 (sint (rseq_cpu_start e)) (rseq_addv_ret e),
           Sched_getcpu]))"
    by (rule read_end_shape) blast
  let ?post = "if futex (gp_state m) = - 1 then [Atomic_store_n Loc_futex ATOMIC_RELAXED, Futex_wake 1] else []"
  have a: "tr = pre @ inc # mid @ Atomic_load_n Loc_futex ATOMIC_RELAXED # ?post"
    by (simp add: tr wake_up_gp_snd gp_state_add_at)
  have b: "end_increment (unat t) inc \<and> (\<forall>ev\<in>set (pre @ inc # mid). event_loc ev \<noteq> Some Loc_futex)"
    using fastp slowp
    by (cases "side_rcu_rseq_membarrier_available e \<noteq> 0 \<and> rseq_addv_ret e = 0") auto
  have c: "futex (gp_state m') = (if futex (gp_state m) = - 1 then 0 else futex (gp_state m))"
    by (simp add: m' wake_up_gp_fst gp_state_add_at)
  have d: "if futex (gp_state m) = - 1
           then futex (gp_state m') = 0 \<and> ?post = [Atomic_store_n Loc_futex ATOMIC_RELAXED, Futex_wake 1]
           else futex (gp_state m') = futex (gp_state m) \<and> ?post = []"
    using c by simp
  from a b d show ?thesis by blast
qed

text \<open>
  On two CPUs with the grace-period thread asleep, on the fast path: the field goes from -1
  to 0 and one wake is issued. With the field at 0, on the fallback: no store and no wake.
\<close>

theorem read_end_wakes_sleeping_gp_witness:
  "side_rcu_read_end fast_env two_cpus_sleeping 1 = Inr (woken, fast_end_wake_ops)
   \<and> (\<exists>pre inc mid post.
           fast_end_wake_ops = pre @ inc # mid @ Atomic_load_n Loc_futex ATOMIC_RELAXED # post
         \<and> end_increment (unat (1::c_uint)) inc
         \<and> (\<forall>ev\<in>set (pre @ inc # mid). event_loc ev \<noteq> Some Loc_futex)
         \<and> (if futex (gp_state two_cpus_sleeping) = - 1
            then futex (gp_state woken) = 0 \<and> post = [Atomic_store_n Loc_futex ATOMIC_RELAXED, Futex_wake 1]
            else futex (gp_state woken) = futex (gp_state two_cpus_sleeping) \<and> post = []))
   \<and> futex (gp_state two_cpus_sleeping) = - 1
   \<and> side_rcu_read_end abort_env fast_begun 1 = Inr (migrated_ended, abort_end_ops)
   \<and> (\<exists>pre inc mid post.
           abort_end_ops = pre @ inc # mid @ Atomic_load_n Loc_futex ATOMIC_RELAXED # post
         \<and> end_increment (unat (1::c_uint)) inc
         \<and> (\<forall>ev\<in>set (pre @ inc # mid). event_loc ev \<noteq> Some Loc_futex)
         \<and> (if futex (gp_state fast_begun) = - 1
            then futex (gp_state migrated_ended) = 0 \<and> post = [Atomic_store_n Loc_futex ATOMIC_RELAXED, Futex_wake 1]
            else futex (gp_state migrated_ended) = futex (gp_state fast_begun) \<and> post = []))
   \<and> futex (gp_state fast_begun) = 0"
proof -
  have s: "futex (gp_state two_cpus_sleeping) = - 1"
    by (simp add: two_cpus_sleeping_def)
  have i: "futex (gp_state fast_begun) = 0"
    by (simp add: fast_begun_def two_cpus_def)
  show ?thesis
    by (rule conjI [OF end_fast_sleeping conjI [OF read_end_wakes_sleeping_gp [OF end_fast_sleeping]
          conjI [OF s conjI [OF end_abort_fast_begun
            conjI [OF read_end_wakes_sleeping_gp [OF end_abort_fast_begun] i]]]]])
qed

text \<open>
  Claim C7, as the code has it. In a state where the array of per-CPU states has
  \<^verbatim>\<open>nr_cpus\<close> entries, the period and the ticket are 0 or 1 and the CPU ids obtained are less
  than \<^verbatim>\<open>nr_cpus\<close>, \<open>side_rcu_read_begin\<close> returns a ticket (the period) and
  \<open>side_rcu_read_end\<close> returns, whatever the flag, \<^verbatim>\<open>rseq_addv\<close> and \<^verbatim>\<open>sched_getcpu\<close>
  answer; the result type of neither has an error value. When \<^verbatim>\<open>sched_getcpu\<close> answers a
  negative value on the fallback, the two calls add 1 to the \<^verbatim>\<open>begin\<close> and \<^verbatim>\<open>end\<close>
  counters of CPU 0.
\<close>

theorem reader_ops_never_fail:
  assumes "percpu_array_ok m" and "cpu_ids_ok e m"
    and "unat (period (gp_state m)) < 2" and "unat t < 2"
  shows "(\<exists>m' tr. side_rcu_read_begin e m = Inr (period (gp_state m), m', tr))
       \<and> (\<exists>m' tr. side_rcu_read_end e m t = Inr (m', tr))
       \<and> (sint (sched_getcpu e) < 0 \<and> (side_rcu_rseq_membarrier_available e = 0 \<or> rseq_addv_ret e \<noteq> 0) \<longrightarrow>
            (\<exists>m' tr v. side_rcu_read_begin e m = Inr (period (gp_state m), m', tr)
                \<and> counter_value m 0 (unat (period (gp_state m))) F_begin = Some v
                \<and> counter_value m' 0 (unat (period (gp_state m))) F_begin = Some (v + 1))
          \<and> (\<exists>m' tr v. side_rcu_read_end e m t = Inr (m', tr)
                \<and> counter_value m 0 (unat t) F_end = Some v
                \<and> counter_value m' 0 (unat t) F_end = Some (v + 1)))"
proof -
  from read_begin_defined [OF assms(1,2,3)] obtain m' tr
    where b: "side_rcu_read_begin e m = Inr (period (gp_state m), m', tr)" by blast
  from read_end_defined [OF assms(1,2,4)] obtain m2' tr2
    where d: "side_rcu_read_end e m t = Inr (m2', tr2)" by blast
  show ?thesis
    using b d read_begin_cpu0 [OF b] read_end_cpu0 [OF d] by blast
qed

text \<open>
  On two CPUs, with \<^verbatim>\<open>rseq_addv\<close> returning -1 and \<^verbatim>\<open>sched_getcpu\<close> returning -1.
\<close>

theorem reader_ops_never_fail_witness:
  "percpu_array_ok two_cpus \<and> cpu_ids_ok abort_env two_cpus
   \<and> unat (period (gp_state two_cpus)) < 2 \<and> unat (1::c_uint) < 2
   \<and> sint (sched_getcpu abort_env) < 0
   \<and> (side_rcu_rseq_membarrier_available abort_env = 0 \<or> rseq_addv_ret abort_env \<noteq> 0)
   \<and> (\<exists>m' tr. side_rcu_read_begin abort_env two_cpus = Inr (period (gp_state two_cpus), m', tr))
   \<and> (\<exists>m' tr. side_rcu_read_end abort_env two_cpus 1 = Inr (m', tr))
   \<and> (\<exists>m' tr v. side_rcu_read_begin abort_env two_cpus = Inr (period (gp_state two_cpus), m', tr)
          \<and> counter_value two_cpus 0 (unat (period (gp_state two_cpus))) F_begin = Some v
          \<and> counter_value m' 0 (unat (period (gp_state two_cpus))) F_begin = Some (v + 1))
   \<and> (\<exists>m' tr v. side_rcu_read_end abort_env two_cpus 1 = Inr (m', tr)
          \<and> counter_value two_cpus 0 (unat (1::c_uint)) F_end = Some v
          \<and> counter_value m' 0 (unat (1::c_uint)) F_end = Some (v + 1))"
proof -
  have h3: "unat (period (gp_state two_cpus)) < 2" by (simp add: two_cpus_def)
  have h4: "unat (1::c_uint) < 2" by simp
  have h5: "sint (sched_getcpu abort_env) < 0
      \<and> (side_rcu_rseq_membarrier_available abort_env = 0 \<or> rseq_addv_ret abort_env \<noteq> 0)"
    by (simp add: abort_env_def)
  note c = reader_ops_never_fail [OF two_cpus_ok(1) example_ids_ok(2) h3 h4]
  show ?thesis
    by (rule conjI [OF two_cpus_ok(1) conjI [OF example_ids_ok(2) conjI [OF h3 conjI [OF h4
          conjI [OF h5 [THEN conjunct1] conjI [OF h5 [THEN conjunct2]
            conjI [OF c [THEN conjunct1] conjI [OF c [THEN conjunct2, THEN conjunct1]
              c [THEN conjunct2, THEN conjunct2, THEN mp, OF h5]]]]]]]]])
qed

text \<open>
  Not so in every state. On a structure whose \<^verbatim>\<open>percpu_state\<close> points to no array both
  calls dereference an invalid pointer (lines 74 and 124), and with ticket 2
  \<open>side_rcu_read_end\<close> indexes \<^verbatim>\<open>count[2]\<close> outside the array of two (line 125): the calls
  do not return a result there, and the header has no check against either.
\<close>

theorem reader_ops_fault_outside_bounds:
  "side_rcu_read_begin abort_env uninitialised = Inl Invalid_pointer
   \<and> side_rcu_read_end abort_env uninitialised 0 = Inl Invalid_pointer
   \<and> side_rcu_read_end abort_env two_cpus 2 = Inl Out_of_bounds"
  by (simp add: side_rcu_read_begin_def side_rcu_read_end_def counter_ptr_def percpu_state_index_def
      count_index_def Let_def uninitialised_def abort_env_def two_cpus_def)

text \<open>
  Claim C8, as the code has it. A call of \<open>side_rcu_read_begin\<close> or of
  \<open>side_rcu_read_end\<close> leaves a counter as it is or adds 1 to it in \<^verbatim>\<open>uintptr_t\<close>
  arithmetic, and never subtracts; so a counter that is not \<^verbatim>\<open>UINTPTR_MAX\<close> does not
  decrease.
\<close>

theorem reader_counters_step:
  assumes "side_rcu_read_begin e m = Inr (t, m', tr) \<or> side_rcu_read_end e m t = Inr (m', tr)"
    and "counter_value m i j f = Some v"
  shows "\<exists>v'. counter_value m' i j f = Some v' \<and> (v' = v \<or> v' = v + 1) \<and> (v \<noteq> - 1 \<longrightarrow> v \<le> v')"
proof -
  from assms(1) obtain i0 f0 v0 where
    v0: "counter_value m i0 (unat t) f0 = Some v0"
    and upd: "\<And>i' j' f'. counter_value m' i' j' f' =
        (if i' = i0 \<and> j' = unat t \<and> f' = f0 then Some (v0 + 1) else counter_value m i' j' f')"
    by (auto elim: read_begin_counters read_end_counters)
  show ?thesis
  proof (cases "i = i0 \<and> j = unat t \<and> f = f0")
    case True
    with v0 assms(2) have "v0 = v" by simp
    with True upd have "counter_value m' i j f = Some (v + 1)" by simp
    then show ?thesis by (simp add: inc_le_below_max)
  next
    case False
    with upd assms(2) have "counter_value m' i j f = Some v" by auto
    then show ?thesis by simp
  qed
qed

text \<open>
  On two CPUs, on the fast path: \<^verbatim>\<open>rseq_begin\<close> of CPU 1 goes from 0 to 1.
\<close>

theorem reader_counters_step_witness:
  "(side_rcu_read_begin fast_env two_cpus = Inr (1, fast_begun, fast_begin_ops)
      \<or> side_rcu_read_end fast_env two_cpus 1 = Inr (fast_begun, fast_begin_ops))
   \<and> counter_value two_cpus 1 1 F_rseq_begin = Some 0
   \<and> (\<exists>v'. counter_value fast_begun 1 1 F_rseq_begin = Some v' \<and> (v' = 0 \<or> v' = 0 + 1)
          \<and> ((0::uintptr_t) \<noteq> - 1 \<longrightarrow> 0 \<le> v'))"
proof -
  have h1: "side_rcu_read_begin fast_env two_cpus = Inr (1, fast_begun, fast_begin_ops)
      \<or> side_rcu_read_end fast_env two_cpus 1 = Inr (fast_begun, fast_begin_ops)"
    by (rule disjI1 [OF begin_fast_two_cpus])
  have h2: "counter_value two_cpus 1 1 F_rseq_begin = Some 0"
    by (simp add: counter_value_def get_count_def example_defs)
  show ?thesis
    by (rule conjI [OF h1 conjI [OF h2 reader_counters_step [OF h1 h2]]])
qed

text \<open>
  A counter that holds \<^verbatim>\<open>UINTPTR_MAX\<close> decreases: \<open>side_rcu_read_begin\<close> takes the
  \<^verbatim>\<open>begin\<close> counter of CPU 0 from \<open>2\<^sup>6\<^sup>4 - 1\<close> to 0.
\<close>

theorem reader_counters_wrap:
  "side_rcu_read_begin abort_env saturated_cpus = Inr (1, two_cpus, abort_begin_ops)
   \<and> counter_value saturated_cpus 0 1 F_begin = Some (- 1)
   \<and> counter_value two_cpus 0 1 F_begin = Some 0
   \<and> unat (- 1 :: uintptr_t) = 18446744073709551615
   \<and> \<not> (- 1 :: uintptr_t) \<le> 0"
proof -
  have a: "counter_value saturated_cpus 0 1 F_begin = Some (- 1)"
    by (simp add: counter_value_def get_count_def example_defs)
  have b: "counter_value two_cpus 0 1 F_begin = Some 0"
    by (simp add: counter_value_def get_count_def example_defs)
  have c: "unat (- 1 :: uintptr_t) = 18446744073709551615"
    by (simp add: unsigned_minus_1_eq_mask mask_eq_exp_minus_1)
  have d: "\<not> (- 1 :: uintptr_t) \<le> 0"
    by simp
  from begin_abort_saturated a b c d show ?thesis
    by (intro conjI)
qed

text \<open>
  Claim C9. A call of \<open>side_rcu_read_begin\<close> adds 1 (in \<^verbatim>\<open>uintptr_t\<close> arithmetic, so
  the value changes) to one counter, \<^verbatim>\<open>begin\<close> or \<^verbatim>\<open>rseq_begin\<close>, of one CPU and one period,
  and every other counter of every CPU and period keeps its value; the structure
  \<^verbatim>\<open>*gp_state\<close> is left as it was, with its fields \<^verbatim>\<open>period\<close>, \<^verbatim>\<open>nr_cpus\<close>,
  \<^verbatim>\<open>percpu_state\<close> and \<^verbatim>\<open>futex\<close>, and so is every other array. A call of
  \<open>side_rcu_read_end\<close> does the same with one counter \<^verbatim>\<open>end\<close> or \<^verbatim>\<open>rseq_end\<close>, and leaves
  \<^verbatim>\<open>period\<close>, \<^verbatim>\<open>nr_cpus\<close>, \<^verbatim>\<open>percpu_state\<close> and the lock as they were.
\<close>

theorem reader_ops_frame:
  assumes "side_rcu_read_begin e m = Inr (t, m', tr)"
    and "side_rcu_read_end e2 m2 t2 = Inr (m2', tr2)"
  shows "(\<exists>i j f v. (f = F_begin \<or> f = F_rseq_begin)
            \<and> counter_value m i j f = Some v \<and> counter_value m' i j f = Some (v + 1) \<and> v + 1 \<noteq> v
            \<and> (\<forall>i' j' f'. (i', j', f') \<noteq> (i, j, f) \<longrightarrow> counter_value m' i' j' f' = counter_value m i' j' f'))
       \<and> gp_state m' = gp_state m
       \<and> (\<forall>a. a \<noteq> percpu_state (gp_state m) \<longrightarrow> cpu_arrays m' a = cpu_arrays m a)
       \<and> (\<exists>i j f v. (f = F_end \<or> f = F_rseq_end)
            \<and> counter_value m2 i j f = Some v \<and> counter_value m2' i j f = Some (v + 1) \<and> v + 1 \<noteq> v
            \<and> (\<forall>i' j' f'. (i', j', f') \<noteq> (i, j, f) \<longrightarrow> counter_value m2' i' j' f' = counter_value m2 i' j' f'))
       \<and> period (gp_state m2') = period (gp_state m2)
       \<and> nr_cpus (gp_state m2') = nr_cpus (gp_state m2)
       \<and> percpu_state (gp_state m2') = percpu_state (gp_state m2)
       \<and> gp_lock (gp_state m2') = gp_lock (gp_state m2)
       \<and> (\<forall>a. a \<noteq> percpu_state (gp_state m2) \<longrightarrow> cpu_arrays m2' a = cpu_arrays m2 a)"
proof -
  from assms(1) obtain i f v where "f = F_begin \<or> f = F_rseq_begin"
    "counter_value m i (unat t) f = Some v"
    "\<And>i' j' f'. counter_value m' i' j' f' =
        (if i' = i \<and> j' = unat t \<and> f' = f then Some (v + 1) else counter_value m i' j' f')"
    by (rule read_begin_counters) blast
  then have 1: "\<exists>i j f v. (f = F_begin \<or> f = F_rseq_begin)
            \<and> counter_value m i j f = Some v \<and> counter_value m' i j f = Some (v + 1) \<and> v + 1 \<noteq> v
            \<and> (\<forall>i' j' f'. (i', j', f') \<noteq> (i, j, f) \<longrightarrow> counter_value m' i' j' f' = counter_value m i' j' f')"
    by (intro exI [of _ i] exI [of _ "unat t"] exI [of _ f] exI [of _ v]) auto
  from assms(1) obtain l where m': "m' = add_at l 1 m"
    by (rule read_begin_shape)
  have 2: "gp_state m' = gp_state m"
    and 3: "\<forall>a. a \<noteq> percpu_state (gp_state m) \<longrightarrow> cpu_arrays m' a = cpu_arrays m a"
    by (simp_all add: m' gp_state_add_at cpu_arrays_add_at_other)
  from assms(2) obtain i f v where "f = F_end \<or> f = F_rseq_end"
    "counter_value m2 i (unat t2) f = Some v"
    "\<And>i' j' f'. counter_value m2' i' j' f' =
        (if i' = i \<and> j' = unat t2 \<and> f' = f then Some (v + 1) else counter_value m2 i' j' f')"
    by (rule read_end_counters) blast
  then have 4: "\<exists>i j f v. (f = F_end \<or> f = F_rseq_end)
            \<and> counter_value m2 i j f = Some v \<and> counter_value m2' i j f = Some (v + 1) \<and> v + 1 \<noteq> v
            \<and> (\<forall>i' j' f'. (i', j', f') \<noteq> (i, j, f) \<longrightarrow> counter_value m2' i' j' f' = counter_value m2 i' j' f')"
    by (intro exI [of _ i] exI [of _ "unat t2"] exI [of _ f] exI [of _ v]) auto
  from assms(2) obtain l where m2': "m2' = fst (side_rcu_wake_up_gp (add_at l 1 m2))"
    by (rule read_end_shape)
  have 5: "period (gp_state m2') = period (gp_state m2)"
    "nr_cpus (gp_state m2') = nr_cpus (gp_state m2)"
    "percpu_state (gp_state m2') = percpu_state (gp_state m2)"
    "gp_lock (gp_state m2') = gp_lock (gp_state m2)"
    "\<forall>a. a \<noteq> percpu_state (gp_state m2) \<longrightarrow> cpu_arrays m2' a = cpu_arrays m2 a"
    by (simp_all add: m2' wake_up_gp_fst gp_state_add_at cpu_arrays_add_at_other)
  from 1 2 3 4 5 show ?thesis by blast
qed

text \<open>
  A begin on CPU 1 on the fast path, followed by the end on CPU 0 on the fallback.
\<close>

theorem reader_ops_frame_witness:
  "side_rcu_read_begin fast_env two_cpus = Inr (1, fast_begun, fast_begin_ops)
   \<and> side_rcu_read_end abort_env fast_begun 1 = Inr (migrated_ended, abort_end_ops)
   \<and> (\<exists>i j f v. (f = F_begin \<or> f = F_rseq_begin)
          \<and> counter_value two_cpus i j f = Some v \<and> counter_value fast_begun i j f = Some (v + 1) \<and> v + 1 \<noteq> v
          \<and> (\<forall>i' j' f'. (i', j', f') \<noteq> (i, j, f) \<longrightarrow>
                counter_value fast_begun i' j' f' = counter_value two_cpus i' j' f'))
   \<and> gp_state fast_begun = gp_state two_cpus
   \<and> (\<exists>i j f v. (f = F_end \<or> f = F_rseq_end)
          \<and> counter_value fast_begun i j f = Some v \<and> counter_value migrated_ended i j f = Some (v + 1) \<and> v + 1 \<noteq> v
          \<and> (\<forall>i' j' f'. (i', j', f') \<noteq> (i, j, f) \<longrightarrow>
                counter_value migrated_ended i' j' f' = counter_value fast_begun i' j' f'))
   \<and> period (gp_state migrated_ended) = period (gp_state fast_begun)
   \<and> nr_cpus (gp_state migrated_ended) = nr_cpus (gp_state fast_begun)
   \<and> percpu_state (gp_state migrated_ended) = percpu_state (gp_state fast_begun)
   \<and> gp_lock (gp_state migrated_ended) = gp_lock (gp_state fast_begun)"
proof -
  note c = reader_ops_frame [OF begin_fast_two_cpus end_abort_fast_begun]
  note d = c [THEN conjunct2, THEN conjunct2, THEN conjunct2]
  note e = d [THEN conjunct2]
  show ?thesis
    by (rule conjI [OF begin_fast_two_cpus conjI [OF end_abort_fast_begun
          conjI [OF c [THEN conjunct1] conjI [OF c [THEN conjunct2, THEN conjunct1]
            conjI [OF d [THEN conjunct1] conjI [OF e [THEN conjunct1]
              conjI [OF e [THEN conjunct2, THEN conjunct1]
                conjI [OF e [THEN conjunct2, THEN conjunct2, THEN conjunct1]
                  e [THEN conjunct2, THEN conjunct2, THEN conjunct2, THEN conjunct1]]]]]]]]])
qed

text \<open>
  Claim C10. Let the period be 0 or 1, let the array \<^verbatim>\<open>percpu_state\<close> points to have
  \<^verbatim>\<open>nr_cpus\<close> entries and let every CPU id obtained from \<^verbatim>\<open>rseq_cpu_start\<close> or from
  \<^verbatim>\<open>sched_getcpu\<close> (a negative value replaced by 0) be less than \<^verbatim>\<open>nr_cpus\<close>, at the begin
  and at the end (\<open>m2\<close> is the state at the end, \<open>e2\<close> what the surroundings answer then).
  Then \<open>side_rcu_read_begin\<close> runs without an access out of bounds, and so does
  \<open>side_rcu_read_end\<close> with the ticket returned: in every counter the two calls address,
  the CPU index is less than \<^verbatim>\<open>nr_cpus\<close> and the period index less than 2.
\<close>

theorem reader_accesses_in_bounds:
  assumes "period (gp_state m) = 0 \<or> period (gp_state m) = 1"
    and "percpu_array_ok m" and "cpu_ids_ok e m"
    and "percpu_array_ok m2" and "cpu_ids_ok e2 m2"
  shows "\<exists>t m' tr. side_rcu_read_begin e m = Inr (t, m', tr)
           \<and> (\<forall>ev\<in>set tr. \<forall>i j f. event_loc ev = Some (Loc_count i j f) \<longrightarrow>
                 int i < sint (nr_cpus (gp_state m)) \<and> j < 2)
           \<and> (\<exists>m2' tr2. side_rcu_read_end e2 m2 t = Inr (m2', tr2)
                \<and> (\<forall>ev\<in>set tr2. \<forall>i j f. event_loc ev = Some (Loc_count i j f) \<longrightarrow>
                      int i < sint (nr_cpus (gp_state m2)) \<and> j < 2))"
proof -
  from assms(1) have p: "unat (period (gp_state m)) < 2" by auto
  from read_begin_defined [OF assms(2,3) p] obtain m' tr
    where b: "side_rcu_read_begin e m = Inr (period (gp_state m), m', tr)" by blast
  from read_end_defined [OF assms(4,5) p] obtain m2' tr2
    where d: "side_rcu_read_end e2 m2 (period (gp_state m)) = Inr (m2', tr2)" by blast
  from assms(2) obtain arr where arr: "cpu_arrays m (percpu_state (gp_state m)) = Some arr"
    "int (length arr) = sint (nr_cpus (gp_state m))"
    by (auto simp: percpu_array_ok_def split: option.splits)
  from assms(4) obtain arr2 where arr2: "cpu_arrays m2 (percpu_state (gp_state m2)) = Some arr2"
    "int (length arr2) = sint (nr_cpus (gp_state m2))"
    by (auto simp: percpu_array_ok_def split: option.splits)
  have 1: "\<forall>ev\<in>set tr. \<forall>i j f. event_loc ev = Some (Loc_count i j f) \<longrightarrow>
                 int i < sint (nr_cpus (gp_state m)) \<and> j < 2"
    using read_begin_ops_in_bounds [OF b arr(1)] arr(2) by fastforce
  have 2: "\<forall>ev\<in>set tr2. \<forall>i j f. event_loc ev = Some (Loc_count i j f) \<longrightarrow>
                 int i < sint (nr_cpus (gp_state m2)) \<and> j < 2"
    using read_end_ops_in_bounds [OF d arr2(1)] arr2(2) by fastforce
  from b d 1 2 show ?thesis by blast
qed

text \<open>
  On two CPUs: a begin on the fast path on CPU 1, the end on the fallback on CPU 0.
\<close>

theorem reader_accesses_in_bounds_witness:
  "(period (gp_state two_cpus) = 0 \<or> period (gp_state two_cpus) = 1)
   \<and> percpu_array_ok two_cpus \<and> cpu_ids_ok fast_env two_cpus
   \<and> percpu_array_ok fast_begun \<and> cpu_ids_ok abort_env fast_begun
   \<and> (\<exists>t m' tr. side_rcu_read_begin fast_env two_cpus = Inr (t, m', tr)
           \<and> (\<forall>ev\<in>set tr. \<forall>i j f. event_loc ev = Some (Loc_count i j f) \<longrightarrow>
                 int i < sint (nr_cpus (gp_state two_cpus)) \<and> j < 2)
           \<and> (\<exists>m2' tr2. side_rcu_read_end abort_env fast_begun t = Inr (m2', tr2)
                \<and> (\<forall>ev\<in>set tr2. \<forall>i j f. event_loc ev = Some (Loc_count i j f) \<longrightarrow>
                      int i < sint (nr_cpus (gp_state fast_begun)) \<and> j < 2)))"
proof -
  have h1: "period (gp_state two_cpus) = 0 \<or> period (gp_state two_cpus) = 1"
    by (simp add: two_cpus_def)
  show ?thesis
    by (rule conjI [OF h1 conjI [OF two_cpus_ok(1) conjI [OF example_ids_ok(1) conjI [OF two_cpus_ok(2)
          conjI [OF example_ids_ok(3)
            reader_accesses_in_bounds [OF h1 two_cpus_ok(1) example_ids_ok(1) two_cpus_ok(2) example_ids_ok(3)]]]]]])
qed

end
